theory Spec2Isabelle
  imports Main "HOL-Library.Char_ord" "HOL-Library.List_Lexorder" "HOL-Library.Multiset"
begin

section \<open>Strings\<close>

text \<open>
  Python strings are modelled as lists of characters read as ASCII text, compared
  lexicographically by character code as Python compares \<^verbatim>\<open>str\<close> values.
  \<^verbatim>\<open>str.lower\<close>, \<^verbatim>\<open>str.strip\<close> and the regular expression class
  \<^verbatim>\<open>\d\<close> are given on ASCII: the letters \<^verbatim>\<open>A\<close> to \<^verbatim>\<open>Z\<close> have a lower case, the
  ASCII characters for which \<^verbatim>\<open>str.isspace\<close> holds are whitespace, and the digits are
  \<^verbatim>\<open>0\<close> to \<^verbatim>\<open>9\<close>.
\<close>

definition lower_char :: "char \<Rightarrow> char" where
  "lower_char c =
     (case map_of (zip ''ABCDEFGHIJKLMNOPQRSTUVWXYZ'' ''abcdefghijklmnopqrstuvwxyz'') c of
        None \<Rightarrow> c
      | Some l \<Rightarrow> l)"

definition lower :: "string \<Rightarrow> string" where
  "lower s = map lower_char s"

definition is_space :: "char \<Rightarrow> bool" where
  "is_space c = (c \<in> set [CHR 0x09, CHR 0x0A, CHR 0x0B, CHR 0x0C, CHR 0x0D,
                            CHR 0x1C, CHR 0x1D, CHR 0x1E, CHR 0x1F, CHR '' ''])"

definition strip :: "string \<Rightarrow> string" where
  "strip s = rev (dropWhile is_space (rev (dropWhile is_space s)))"

definition is_digit :: "char \<Rightarrow> bool" where
  "is_digit c = (c \<in> set ''0123456789'')"

text \<open>\<^verbatim>\<open>s.split(sep)\<close> for a one-character separator: one more piece than separators.\<close>

fun split_on :: "char \<Rightarrow> string \<Rightarrow> string list" where
  "split_on sep [] = [[]]"
| "split_on sep (c # cs) =
     (if c = sep then [] # split_on sep cs
      else (case split_on sep cs of
              [] \<Rightarrow> [[c]]
            | w # ws \<Rightarrow> (c # w) # ws))"

text \<open>\<^verbatim>\<open>s.zfill(width)\<close>: zeros go after a leading sign.\<close>

definition zfill :: "nat \<Rightarrow> string \<Rightarrow> string" where
  "zfill width s =
     (if width \<le> length s then s
      else (case s of
              c # cs \<Rightarrow>
                (if c = CHR ''+'' \<or> c = CHR ''-''
                 then c # replicate (width - length s) CHR ''0'' @ cs
                 else replicate (width - length s) CHR ''0'' @ s)
            | [] \<Rightarrow> replicate width CHR ''0''))"

text \<open>\<^verbatim>\<open>sep.join(xs)\<close>.\<close>

fun join :: "string \<Rightarrow> string list \<Rightarrow> string" where
  "join sep [] = []"
| "join sep [x] = x"
| "join sep (x # y # ys) = x @ sep @ join sep (y # ys)"

section \<open>The ontology graph\<close>

text \<open>
  The \<^verbatim>\<open>networkx.MultiDiGraph\<close> that \<^verbatim>\<open>obonet.read_obo\<close> builds: the nodes in
  iteration order, each with the \<^verbatim>\<open>name\<close> entry of its attribute dictionary if it has
  one (the only attribute the program reads), and the edges \<^verbatim>\<open>(u, v, key)\<close>, directed
  from the child \<^verbatim>\<open>u\<close> to the parent \<^verbatim>\<open>v\<close>.
\<close>

type_synonym node_id = string

record graph =
  nodes :: "(node_id \<times> string option) list"
  edges :: "(node_id \<times> node_id \<times> string) list"

datatype error = ValueError | KeyError | IndexError

definition PHENOTYPIC_ABN :: node_id where
  "PHENOTYPIC_ABN = ''HP:0000118''"

text \<open>\<^verbatim>\<open>node in G\<close>.\<close>

definition has_node :: "graph \<Rightarrow> node_id \<Rightarrow> bool" where
  "has_node G n = (n \<in> set (map fst (nodes G)))"

text \<open>
  What networkx keeps true of every graph: a node occurs once, and both ends of an edge
  are nodes (\<^verbatim>\<open>add_edge\<close> adds the missing ones, without attributes).
\<close>

definition wf_graph :: "graph \<Rightarrow> bool" where
  "wf_graph G =
     (distinct (map fst (nodes G)) \<and>
      list_all (\<lambda>(u, v, k). has_node G u \<and> has_node G v) (edges G))"

text \<open>\<^verbatim>\<open>G.in_edges(n, keys=True)\<close>.\<close>

definition in_edges :: "graph \<Rightarrow> node_id \<Rightarrow> (node_id \<times> node_id \<times> string) list" where
  "in_edges G n = filter (\<lambda>(u, v, k). v = n) (edges G)"

text \<open>The edge relation, child to parent, and the direct children of a node.\<close>

definition edge_rel :: "graph \<Rightarrow> (node_id \<times> node_id) set" where
  "edge_rel G = (\<lambda>(u, v, k). (u, v)) ` set (edges G)"

definition direct_children :: "graph \<Rightarrow> node_id \<Rightarrow> node_id set" where
  "direct_children G n = {u. (u, n) \<in> edge_rel G}"

section \<open>build_name_index\<close>

text \<open>The body of the loop over \<^verbatim>\<open>G.nodes(data=True)\<close>, and the loop.\<close>

fun index_node :: "node_id \<times> string option \<Rightarrow> (string \<rightharpoonup> node_id) \<Rightarrow> (string \<rightharpoonup> node_id)" where
  "index_node (node, None) name_to_id = name_to_id"
| "index_node (node, Some name) name_to_id =
     (if name \<noteq> [] then name_to_id(lower name \<mapsto> node) else name_to_id)"

definition build_name_index :: "graph \<Rightarrow> (string \<rightharpoonup> node_id)" where
  "build_name_index G = fold index_node (nodes G) Map.empty"

section \<open>get_system_roots\<close>

text \<open>
  The order in which a Python \<^verbatim>\<open>set\<close> yields its elements is not specified: the
  parameter \<open>set_iter\<close> maps the distinct elements of the set to the order of iteration.
\<close>

definition iteration_order :: "(node_id list \<Rightarrow> node_id list) \<Rightarrow> bool" where
  "iteration_order set_iter = (\<forall>xs. mset (set_iter xs) = mset xs)"

text \<open>Truth value of an \<^verbatim>\<open>Optional[Set[str]]\<close>: \<^verbatim>\<open>None\<close> and the empty set are false.\<close>

definition truthy_set :: "node_id set option \<Rightarrow> bool" where
  "truthy_set r = (case r of None \<Rightarrow> False | Some S \<Rightarrow> S \<noteq> {})"

definition in_restrict :: "node_id set option \<Rightarrow> node_id \<Rightarrow> bool" where
  "in_restrict r cid = (case r of None \<Rightarrow> False | Some S \<Rightarrow> cid \<in> S)"

text \<open>
  The loop over \<^verbatim>\<open>children\<close> that fills the dictionary \<^verbatim>\<open>systems\<close>, kept as its
  items in insertion order; \<^verbatim>\<open>G.nodes[cid]\<close> raises \<^verbatim>\<open>KeyError\<close> for a missing node.
\<close>

fun systems_loop ::
  "graph \<Rightarrow> node_id set option \<Rightarrow> node_id list \<Rightarrow> error + (node_id \<times> string) list" where
  "systems_loop G restrict_to [] = Inr []"
| "systems_loop G restrict_to (cid # rest) =
     (if truthy_set restrict_to \<and> \<not> in_restrict restrict_to cid
      then systems_loop G restrict_to rest
      else (case map_of (nodes G) cid of
              None \<Rightarrow> Inl KeyError
            | Some data \<Rightarrow>
                (case systems_loop G restrict_to rest of
                   Inl e \<Rightarrow> Inl e
                 | Inr systems \<Rightarrow>
                     Inr ((cid, case data of None \<Rightarrow> [] | Some nm \<Rightarrow> nm) # systems))))"

definition get_system_roots ::
  "(node_id list \<Rightarrow> node_id list) \<Rightarrow> graph \<Rightarrow> node_id set option
     \<Rightarrow> error + (node_id \<times> string) list" where
  "get_system_roots set_iter G restrict_to =
     (if \<not> has_node G PHENOTYPIC_ABN then Inl ValueError
      else systems_loop G restrict_to
             (set_iter (remdups (map fst (in_edges G PHENOTYPIC_ABN)))))"

section \<open>resolve_input_to_id\<close>

text \<open>
  \<^verbatim>\<open>re.match(r"^HP:\d{7}$", t, re.IGNORECASE)\<close>: the two letters in either case, the
  colon, seven digits, and then the end of the string or a final newline.
\<close>

definition re_match_hpo_id :: "string \<Rightarrow> bool" where
  "re_match_hpo_id t =
     (case t of
        h # p # c # rest \<Rightarrow>
          (h = CHR ''H'' \<or> h = CHR ''h'') \<and> (p = CHR ''P'' \<or> p = CHR ''p'') \<and> c = CHR '':'' \<and>
          length (take 7 rest) = 7 \<and> list_all is_digit (take 7 rest) \<and>
          (drop 7 rest = [] \<or> drop 7 rest = [CHR 0x0A])
      | _ \<Rightarrow> False)"

definition resolve_input_to_id :: "string \<Rightarrow> (string \<rightharpoonup> node_id) \<Rightarrow> error + node_id option" where
  "resolve_input_to_id term name_to_id =
     (let t = strip term in
      if t = [] then Inr None
      else if re_match_hpo_id t then
        (case split_on CHR '':'' t of
           _ # d # _ \<Rightarrow> Inr (Some (''HP:'' @ zfill 7 d))
         | _ \<Rightarrow> Inl IndexError)
      else Inr (name_to_id (lower t)))"

section \<open>ancestors\<close>

text \<open>
  \<^verbatim>\<open>networkx.ancestors(G, source)\<close> returns all nodes having a path to \<^verbatim>\<open>source\<close> in
  \<^verbatim>\<open>G\<close>: a breadth-first search from \<^verbatim>\<open>source\<close> along the edges taken backwards, from an
  edge's target to its sources, collecting every node it discovers; \<^verbatim>\<open>source\<close> itself is
  marked visited at the start and is not part of the result.
\<close>

function bfs_predecessors :: "graph \<Rightarrow> node_id list \<Rightarrow> node_id list \<Rightarrow> node_id list" where
  "bfs_predecessors G [] visited = visited"
| "bfs_predecessors G (parent # queue) visited =
     (let new = remdups (filter (\<lambda>u. u \<notin> set visited) (map fst (in_edges G parent)))
      in bfs_predecessors G (queue @ new) (visited @ new))"
  by pat_completeness auto

termination bfs_predecessors
proof (relation "measures [\<lambda>(G, q, v). card (fst ` set (edges G) - set v), \<lambda>(G, q, v). length q]")
  show "wf (measures [\<lambda>(G, q, v). card (fst ` set (edges G) - set v), \<lambda>(G, q, v). length q])"
    by simp
next
  fix G :: graph and parent :: node_id and queue visited new :: "node_id list"
  assume new: "new = remdups (filter (\<lambda>u. u \<notin> set visited) (map fst (in_edges G parent)))"
  show "((G, queue @ new, visited @ new), (G, parent # queue, visited))
          \<in> measures [\<lambda>(G, q, v). card (fst ` set (edges G) - set v), \<lambda>(G, q, v). length q]"
  proof (cases "new = []")
    case True
    then show ?thesis by simp
  next
    case False
    then obtain x where x: "x \<in> set new" by (cases new) auto
    from x new have "x \<in> fst ` set (edges G)" "x \<notin> set visited"
      by (auto simp: in_edges_def)
    then have "fst ` set (edges G) - set (visited @ new) \<subset> fst ` set (edges G) - set visited"
      using x by auto
    then have "card (fst ` set (edges G) - set (visited @ new))
                 < card (fst ` set (edges G) - set visited)"
      by (intro psubset_card_mono) auto
    then show ?thesis by simp
  qed
qed

definition nx_ancestors :: "graph \<Rightarrow> node_id \<Rightarrow> node_id set" where
  "nx_ancestors G source = set (bfs_predecessors G [source] [source]) - {source}"

definition ancestors :: "graph \<Rightarrow> node_id \<Rightarrow> node_id set" where
  "ancestors G node = (if \<not> has_node G node then {} else nx_ancestors G node)"

section \<open>map_term_to_systems\<close>

text \<open>
  The dictionary \<^verbatim>\<open>systems\<close> is the list of its items in insertion order, the order in
  which \<^verbatim>\<open>systems.keys()\<close> iterates, so \<^verbatim>\<open>(sid, systems[sid])\<close> is the item itself.
  \<^verbatim>\<open>list.sort\<close> is stable, as \<^const>\<open>sort_key\<close> is.
\<close>

definition map_term_to_systems ::
  "graph \<Rightarrow> (node_id \<times> string) list \<Rightarrow> node_id \<Rightarrow> (node_id \<times> string) list" where
  "map_term_to_systems G systems node_id =
     (if \<not> has_node G node_id then []
      else (let ancs = ancestors G node_id;
                hits = filter (\<lambda>(sid, nm). sid \<in> ancs \<or> sid = node_id) systems
            in sort_key (\<lambda>x. lower (snd x)) hits))"

section \<open>write_output and main\<close>

text \<open>A result row is a dictionary from field name to value, kept as its items in order.\<close>

type_synonym row = "(string \<times> string) list"

definition fieldnames :: "string list" where
  "fieldnames = [''input'', ''resolved_hpo_id'', ''resolved_hpo_name'',
                 ''system_level_ids'', ''system_level_names'']"

text \<open>
  \<^verbatim>\<open>csv.DictWriter\<close>: the header, then for each row the values of the fields in the order
  of \<^verbatim>\<open>fieldnames\<close>; a row with a key that is no field name raises \<^verbatim>\<open>ValueError\<close>. The
  result is the table of cells written (quoting of cells is left to the writer).
\<close>

definition write_output :: "row list \<Rightarrow> error + string list list" where
  "write_output rows =
     (if list_ex (\<lambda>r. list_ex (\<lambda>k. k \<notin> set fieldnames) (map fst r)) rows then Inl ValueError
      else Inr (fieldnames #
                map (\<lambda>r. map (\<lambda>f. case map_of r f of None \<Rightarrow> [] | Some v \<Rightarrow> v) fieldnames) rows))"

text \<open>\<^verbatim>\<open>x or ""\<close> for an optional string.\<close>

definition or_empty :: "string option \<Rightarrow> string" where
  "or_empty x = (case x of None \<Rightarrow> [] | Some s \<Rightarrow> s)"

text \<open>
  \<^verbatim>\<open>G.nodes[resolved_id]["name"] if resolved_id and resolved_id in G else None\<close>: the
  subscript raises \<^verbatim>\<open>KeyError\<close> when the node has no \<^verbatim>\<open>name\<close> attribute.
\<close>

definition resolved_name_of :: "graph \<Rightarrow> node_id option \<Rightarrow> error + string option" where
  "resolved_name_of G resolved_id =
     (case resolved_id of
        None \<Rightarrow> Inr None
      | Some rid \<Rightarrow>
          (if rid \<noteq> [] \<and> has_node G rid
           then (case map_of (nodes G) rid of
                   None \<Rightarrow> Inl KeyError
                 | Some None \<Rightarrow> Inl KeyError
                 | Some (Some nm) \<Rightarrow> Inr (Some nm))
           else Inr None))"

text \<open>The body of the loop over the inputs.\<close>

definition process_input ::
  "graph \<Rightarrow> (string \<rightharpoonup> node_id) \<Rightarrow> (node_id \<times> string) list \<Rightarrow> string \<Rightarrow> error + row" where
  "process_input G name_to_id system_roots raw =
     (case resolve_input_to_id raw name_to_id of
        Inl e \<Rightarrow> Inl e
      | Inr resolved_id \<Rightarrow>
          (case resolved_name_of G resolved_id of
             Inl e \<Rightarrow> Inl e
           | Inr resolved_name \<Rightarrow>
               (let systems = (case resolved_id of
                                 None \<Rightarrow> []
                               | Some rid \<Rightarrow>
                                   if rid \<noteq> [] then map_term_to_systems G system_roots rid
                                   else []);
                    sys_ids = (if systems \<noteq> [] then join ''|'' (map fst systems) else []);
                    sys_names = (if systems \<noteq> [] then join ''|'' (map snd systems) else [])
                in Inr [(''input'', raw),
                        (''resolved_hpo_id'', or_empty resolved_id),
                        (''resolved_hpo_name'', or_empty resolved_name),
                        (''system_level_ids'', sys_ids),
                        (''system_level_names'', sys_names)])))"

fun process_inputs ::
  "graph \<Rightarrow> (string \<rightharpoonup> node_id) \<Rightarrow> (node_id \<times> string) list \<Rightarrow> string list
     \<Rightarrow> error + row list" where
  "process_inputs G name_to_id system_roots [] = Inr []"
| "process_inputs G name_to_id system_roots (raw # rest) =
     (case process_input G name_to_id system_roots raw of
        Inl e \<Rightarrow> Inl e
      | Inr r \<Rightarrow>
          (case process_inputs G name_to_id system_roots rest of
             Inl e \<Rightarrow> Inl e
           | Inr rs \<Rightarrow> Inr (r # rs)))"

text \<open>The set \<^verbatim>\<open>restrict\<close> that \<^verbatim>\<open>main\<close> builds from \<^verbatim>\<open>--restrict_ids\<close>.\<close>

definition parse_restrict_ids :: "string option \<Rightarrow> node_id set option" where
  "parse_restrict_ids restrict_ids =
     (case restrict_ids of
        None \<Rightarrow> None
      | Some s \<Rightarrow>
          if s = [] then None
          else Some (set (filter (\<lambda>x. x \<noteq> []) (map strip (split_on CHR '','' s)))))"

text \<open>
  \<^verbatim>\<open>main\<close> from the loaded graph on: \<open>inputs\<close> is what \<^verbatim>\<open>read_inputs\<close> returned.
  \<open>main_results\<close> is the list \<^verbatim>\<open>results\<close>, \<open>main\<close> what is written.
\<close>

definition main_results ::
  "(node_id list \<Rightarrow> node_id list) \<Rightarrow> graph \<Rightarrow> string option \<Rightarrow> string list
     \<Rightarrow> error + row list" where
  "main_results set_iter G restrict_ids inputs =
     (let name_to_id = build_name_index G;
          restrict = parse_restrict_ids restrict_ids
      in (case get_system_roots set_iter G restrict of
            Inl e \<Rightarrow> Inl e
          | Inr system_roots \<Rightarrow> process_inputs G name_to_id system_roots inputs))"

definition main ::
  "(node_id list \<Rightarrow> node_id list) \<Rightarrow> graph \<Rightarrow> string option \<Rightarrow> string list
     \<Rightarrow> error + string list list" where
  "main set_iter G restrict_ids inputs =
     (case main_results set_iter G restrict_ids inputs of
        Inl e \<Rightarrow> Inl e
      | Inr results \<Rightarrow> write_output results)"

section \<open>Example graphs\<close>

definition G_seizure :: graph where
  "G_seizure =
     \<lparr>nodes = [(''HP:0000118'', Some ''Phenotypic abnormality''),
               (''HP:0000707'', Some ''Nervous system''),
               (''HP:0001250'', Some ''Seizure'')],
      edges = [(''HP:0000707'', ''HP:0000118'', ''is_a''),
               (''HP:0001250'', ''HP:0000707'', ''is_a'')]\<rparr>"

definition G_nested :: graph where
  "G_nested =
     \<lparr>nodes = [(''HP:0000118'', Some ''Phenotypic abnormality''),
               (''HP:0000707'', Some ''Nervous system''),
               (''HP:0012638'', Some ''Abnormal nervous system physiology'')],
      edges = [(''HP:0000707'', ''HP:0000118'', ''is_a''),
               (''HP:0012638'', ''HP:0000118'', ''is_a''),
               (''HP:0012638'', ''HP:0000707'', ''is_a'')]\<rparr>"

definition G_ties :: graph where
  "G_ties =
     \<lparr>nodes = [(''HP:0000118'', Some ''Phenotypic abnormality''),
               (''HP:0000002'', Some ''Growth''),
               (''HP:0000001'', Some ''Growth'')],
      edges = [(''HP:0000002'', ''HP:0000118'', ''is_a''),
               (''HP:0000001'', ''HP:0000118'', ''is_a'')]\<rparr>"

definition G_same_name :: graph where
  "G_same_name =
     \<lparr>nodes = [(''HP:0001250'', Some ''Seizure''),
               (''HP:0020219'', Some ''SEIZURE''),
               (''HP:0000118'', Some ''Phenotypic abnormality'')],
      edges = [(''HP:0001250'', ''HP:0000118'', ''is_a''),
               (''HP:0020219'', ''HP:0000118'', ''is_a'')]\<rparr>"

text \<open>A parent that the ontology file names but does not define is a node without attributes.\<close>

definition G_unnamed :: graph where
  "G_unnamed =
     \<lparr>nodes = [(''HP:0000118'', Some ''Phenotypic abnormality''),
               (''HP:0000707'', Some ''Nervous system''),
               (''HP:0001250'', Some ''Seizure''),
               (''HP:0009999'', None)],
      edges = [(''HP:0000707'', ''HP:0000118'', ''is_a''),
               (''HP:0001250'', ''HP:0000707'', ''is_a''),
               (''HP:0001250'', ''HP:0009999'', ''is_a'')]\<rparr>"

text \<open>
  Three system roots: \<^verbatim>\<open>HP:0012638\<close> is also a child of \<^verbatim>\<open>HP:0000707\<close>, and
  \<^verbatim>\<open>HP:0000818\<close> is joined to neither.
\<close>

definition G_three_roots :: graph where
  "G_three_roots =
     \<lparr>nodes = [(''HP:0000118'', Some ''Phenotypic abnormality''),
               (''HP:0000707'', Some ''Nervous system''),
               (''HP:0012638'', Some ''Abnormal nervous system physiology''),
               (''HP:0000818'', Some ''Endocrine system'')],
      edges = [(''HP:0000707'', ''HP:0000118'', ''is_a''),
               (''HP:0012638'', ''HP:0000118'', ''is_a''),
               (''HP:0012638'', ''HP:0000707'', ''is_a''),
               (''HP:0000818'', ''HP:0000118'', ''is_a'')]\<rparr>"

section \<open>What networkx.ancestors computes\<close>

lemma in_edges_sources: "u \<in> fst ` set (in_edges G n) \<longleftrightarrow> (u, n) \<in> edge_rel G"
  by (force simp: in_edges_def edge_rel_def)

lemma bfs_keeps_visited: "set visited \<subseteq> set (bfs_predecessors G queue visited)"
  by (induction G queue visited rule: bfs_predecessors.induct) (auto simp: Let_def)

lemma bfs_sound:
  "u \<in> set (bfs_predecessors G queue visited) \<Longrightarrow>
     u \<in> set visited \<or> (\<exists>x \<in> set queue. (u, x) \<in> (edge_rel G)\<^sup>+)"
proof (induction G queue visited rule: bfs_predecessors.induct)
  case (1 G visited)
  then show ?case by simp
next
  case (2 G parent queue visited)
  define new where "new = remdups (filter (\<lambda>u. u \<notin> set visited) (map fst (in_edges G parent)))"
  have new_edge: "(n, parent) \<in> edge_rel G" if "n \<in> set new" for n
    using that in_edges_sources [of n G parent] by (auto simp: new_def)
  from "2.prems" have "u \<in> set (bfs_predecessors G (queue @ new) (visited @ new))"
    by (simp add: new_def Let_def)
  with "2.IH" [OF new_def] consider "u \<in> set visited" | "u \<in> set new"
    | x where "x \<in> set queue" "(u, x) \<in> (edge_rel G)\<^sup>+"
    | x where "x \<in> set new" "(u, x) \<in> (edge_rel G)\<^sup>+"
    by auto
  then show ?case
  proof cases
    case 1
    then show ?thesis by simp
  next
    case 2
    then show ?thesis using new_edge by auto
  next
    case 3
    then show ?thesis by auto
  next
    case 4
    then have "(u, parent) \<in> (edge_rel G)\<^sup>+"
      using new_edge by (meson trancl.simps)
    then show ?thesis by auto
  qed
qed

lemma bfs_closed:
  assumes "\<And>y u. y \<in> set visited \<Longrightarrow> y \<notin> set queue \<Longrightarrow> (u, y) \<in> edge_rel G \<Longrightarrow> u \<in> set visited"
    and "y \<in> set (bfs_predecessors G queue visited)" and "(u, y) \<in> edge_rel G"
  shows "u \<in> set (bfs_predecessors G queue visited)"
  using assms
proof (induction G queue visited rule: bfs_predecessors.induct)
  case (1 G visited)
  then show ?case by simp
next
  case (2 G parent queue visited)
  define new where "new = remdups (filter (\<lambda>u. u \<notin> set visited) (map fst (in_edges G parent)))"
  have step: "bfs_predecessors G (parent # queue) visited
                = bfs_predecessors G (queue @ new) (visited @ new)"
    by (simp add: new_def Let_def)
  have inv: "u' \<in> set (visited @ new)"
    if "y' \<in> set (visited @ new)" "y' \<notin> set (queue @ new)" "(u', y') \<in> edge_rel G" for y' u'
  proof (cases "y' = parent")
    case True
    with that(3) show ?thesis
      using in_edges_sources [of u' G parent] by (auto simp: new_def)
  next
    case False
    with that "2.prems"(1) [of y' u'] show ?thesis by auto
  qed
  have "u \<in> set (bfs_predecessors G (queue @ new) (visited @ new))"
  proof (rule "2.IH" [OF new_def])
    show "y \<in> set (bfs_predecessors G (queue @ new) (visited @ new))"
      using "2.prems"(2) by (simp only: step)
    show "(u, y) \<in> edge_rel G" by (rule "2.prems"(3))
  qed (rule inv)
  then show ?case by (simp only: step)
qed

lemma bfs_from_source:
  "set (bfs_predecessors G [s] [s]) = {u. (u, s) \<in> (edge_rel G)\<^sup>*}"
proof (intro set_eqI iffI)
  fix u
  assume "u \<in> set (bfs_predecessors G [s] [s])"
  from bfs_sound [OF this] show "u \<in> {u. (u, s) \<in> (edge_rel G)\<^sup>*}"
    by auto
next
  fix u
  assume "u \<in> {u. (u, s) \<in> (edge_rel G)\<^sup>*}"
  then have "(u, s) \<in> (edge_rel G)\<^sup>*" by simp
  then show "u \<in> set (bfs_predecessors G [s] [s])"
  proof (induction rule: converse_rtrancl_induct)
    case base
    then show ?case using bfs_keeps_visited [of "[s]" G "[s]"] by simp
  next
    case (step a b)
    show ?case
      by (rule bfs_closed [OF _ step.IH step.hyps(1)]) simp
  qed
qed

lemma nx_ancestors_iff:
  "u \<in> nx_ancestors G s \<longleftrightarrow> u \<noteq> s \<and> (u, s) \<in> (edge_rel G)\<^sup>+"
proof -
  have "u \<in> nx_ancestors G s \<longleftrightarrow> u \<noteq> s \<and> (u, s) \<in> (edge_rel G)\<^sup>*"
    unfolding nx_ancestors_def bfs_from_source by blast
  then show ?thesis
    by (auto simp: rtrancl_eq_or_trancl)
qed

lemma not_joined_by_path:
  "u \<notin> nx_ancestors G s \<Longrightarrow> u \<noteq> s \<Longrightarrow> (u, s) \<notin> (edge_rel G)\<^sup>+"
  by (simp add: nx_ancestors_iff)

section \<open>Identifier-shaped inputs\<close>

lemma split_on_no_sep: "sep \<notin> set s \<Longrightarrow> split_on sep s = [s]"
  by (induction s) auto

lemma is_digit_not_colon: "list_all is_digit ds \<Longrightarrow> CHR '':'' \<notin> set ds"
  by (induction ds) (auto simp: is_digit_def)

lemma resolve_pattern:
  assumes t: "strip term = h # p # CHR '':'' # ds"
    and h: "h = CHR ''H'' \<or> h = CHR ''h''"
    and p: "p = CHR ''P'' \<or> p = CHR ''p''"
    and len: "length ds = 7"
    and dig: "list_all is_digit ds"
  shows "resolve_input_to_id term name_to_id = Inr (Some (''HP:'' @ ds))"
proof -
  have m: "re_match_hpo_id (h # p # CHR '':'' # ds)"
    using h p len dig by (simp add: re_match_hpo_id_def)
  have "split_on CHR '':'' ds = [ds]"
    using dig by (simp add: split_on_no_sep is_digit_not_colon)
  then have s: "split_on CHR '':'' (h # p # CHR '':'' # ds) = [[h, p], ds]"
    using h p by auto
  show ?thesis
    using m s len by (simp add: resolve_input_to_id_def t zfill_def)
qed

text \<open>
  C9: an input that, once stripped, is the letters \<^verbatim>\<open>HP\<close> in either case, a colon and
  exactly seven digits resolves to \<^verbatim>\<open>HP:\<close> followed by the same digits; in
  particular \<^verbatim>\<open>hp:0001626\<close> and \<^verbatim>\<open>HP:0001626\<close> both resolve to
  \<^verbatim>\<open>HP:0001626\<close>.
\<close>

theorem resolve_input_to_id_canonical:
  "(strip term = h # p # CHR '':'' # ds \<and> (h = CHR ''H'' \<or> h = CHR ''h'') \<and>
      (p = CHR ''P'' \<or> p = CHR ''p'') \<and> length ds = 7 \<and> list_all is_digit ds
      \<longrightarrow> resolve_input_to_id term name_to_id = Inr (Some (''HP:'' @ ds))) \<and>
   resolve_input_to_id ''hp:0001626'' name_to_id = Inr (Some ''HP:0001626'') \<and>
   resolve_input_to_id ''HP:0001626'' name_to_id = Inr (Some ''HP:0001626'')"
proof -
  have a: "strip ''hp:0001626'' = ''hp:0001626''" "strip ''HP:0001626'' = ''HP:0001626''"
    by (simp_all add: strip_def is_space_def)
  have d: "list_all is_digit ''0001626''"
    by (simp add: is_digit_def)
  have "resolve_input_to_id ''hp:0001626'' name_to_id = Inr (Some (''HP:'' @ ''0001626''))"
    by (rule resolve_pattern [OF a(1)]) (simp_all add: is_digit_def)
  moreover have "resolve_input_to_id ''HP:0001626'' name_to_id = Inr (Some (''HP:'' @ ''0001626''))"
    by (rule resolve_pattern [OF a(2)]) (simp_all add: is_digit_def)
  ultimately show ?thesis
    using resolve_pattern [of "term" h p ds name_to_id] by simp
qed

theorem resolve_input_to_id_canonical_witness:
  "strip ''  Hp:0001250 '' = CHR ''H'' # CHR ''p'' # CHR '':'' # ''0001250'' \<and>
   length ''0001250'' = 7 \<and> list_all is_digit ''0001250'' \<and>
   resolve_input_to_id ''  Hp:0001250 '' Map.empty = Inr (Some ''HP:0001250'')"
proof -
  have s: "strip ''  Hp:0001250 '' = CHR ''H'' # CHR ''p'' # CHR '':'' # ''0001250''"
    by (simp add: strip_def is_space_def)
  have d: "list_all is_digit ''0001250''"
    by (simp add: is_digit_def)
  show ?thesis
    using resolve_input_to_id_canonical
      [of "''  Hp:0001250 ''" "CHR ''H''" "CHR ''p''" "''0001250''" Map.empty] s d
    by simp
qed

lemmas eval_defs = has_node_def ancestors_def nx_ancestors_def in_edges_def lower_def
  lower_char_def map_term_to_systems_def get_system_roots_def PHENOTYPIC_ABN_def
  truthy_set_def in_restrict_def

section \<open>Classification by map_term_to_systems\<close>

lemma set_map_term_to_systems:
  "set (map_term_to_systems G systems n) =
     {(sid, nm). (sid, nm) \<in> set systems \<and> has_node G n \<and>
                 (sid = n \<or> (sid, n) \<in> (edge_rel G)\<^sup>+)}"
  by (auto simp: map_term_to_systems_def ancestors_def nx_ancestors_iff)

text \<open>
  C1: a system root belongs to the classification of a node exactly if it is the node or
  lies in the node's ancestor closure, following the edges from child to parent; with
  \<^verbatim>\<open>HP:0001250\<close> below the system root \<^verbatim>\<open>HP:0000707\<close>, classifying
  \<^verbatim>\<open>HP:0001250\<close> should give \<^verbatim>\<open>[("HP:0000707", "Nervous system")]\<close>. The code
  searches the edges backwards: on that graph \<^verbatim>\<open>HP:0000707\<close> is reachable from
  \<^verbatim>\<open>HP:0001250\<close> along child to parent edges and is the one system root, yet the
  classification of \<^verbatim>\<open>HP:0001250\<close> is empty, and it is the root
  \<^verbatim>\<open>HP:0000118\<close>, an ancestor of the system root, that is classified under it.
\<close>

theorem seizure_classification_empty:
  "(''HP:0001250'', ''HP:0000707'') \<in> (edge_rel G_seizure)\<^sup>+ \<and>
   get_system_roots (\<lambda>xs. xs) G_seizure None = Inr [(''HP:0000707'', ''Nervous system'')] \<and>
   map_term_to_systems G_seizure [(''HP:0000707'', ''Nervous system'')] ''HP:0001250'' = [] \<and>
   map_term_to_systems G_seizure [(''HP:0000707'', ''Nervous system'')] ''HP:0000118''
     = [(''HP:0000707'', ''Nervous system'')]"
proof -
  have "(''HP:0001250'', ''HP:0000707'') \<in> edge_rel G_seizure"
    by (simp add: edge_rel_def G_seizure_def)
  then have "(''HP:0001250'', ''HP:0000707'') \<in> (edge_rel G_seizure)\<^sup>+" by (rule r_into_trancl)
  moreover have "get_system_roots (\<lambda>xs. xs) G_seizure None
                   = Inr [(''HP:0000707'', ''Nervous system'')]"
    by (simp add: eval_defs G_seizure_def)
  moreover have "map_term_to_systems G_seizure [(''HP:0000707'', ''Nervous system'')]
                   ''HP:0001250'' = []"
    by (simp add: eval_defs G_seizure_def)
  moreover have "map_term_to_systems G_seizure [(''HP:0000707'', ''Nervous system'')]
                   ''HP:0000118'' = [(''HP:0000707'', ''Nervous system'')]"
    by (simp add: eval_defs G_seizure_def)
  ultimately show ?thesis by simp
qed

section \<open>The system roots\<close>

lemma systems_loop_keys:
  "systems_loop G r cs = Inr systems \<Longrightarrow>
     map fst systems = filter (\<lambda>c. \<not> (truthy_set r \<and> \<not> in_restrict r c)) cs"
  by (induction cs arbitrary: systems) (auto split: if_splits option.splits sum.splits)

lemma systems_loop_names:
  "systems_loop G r cs = Inr systems \<Longrightarrow> (c, nm) \<in> set systems \<Longrightarrow>
     \<exists>data. map_of (nodes G) c = Some data \<and> nm = (case data of None \<Rightarrow> [] | Some n \<Rightarrow> n)"
  by (induction cs arbitrary: systems) (auto split: if_splits option.split_asm sum.splits)

lemma systems_loop_succeeds:
  "list_all (has_node G) cs \<Longrightarrow> \<exists>systems. systems_loop G r cs = Inr systems"
proof (induction cs)
  case Nil
  then show ?case by simp
next
  case (Cons c cs)
  then obtain systems where s: "systems_loop G r cs = Inr systems" by auto
  from Cons.prems have "has_node G c" by simp
  then obtain data where "map_of (nodes G) c = Some data"
    by (cases "map_of (nodes G) c") (auto simp: has_node_def map_of_eq_None_iff)
  with s show ?case by simp
qed

lemma children_list:
  "set (remdups (map fst (in_edges G n))) = direct_children G n"
  using in_edges_sources [of _ G n] by (auto simp: direct_children_def)

lemma iteration_order_set: "iteration_order f \<Longrightarrow> set (f xs) = set xs"
  by (metis iteration_order_def mset_eq_setD)

lemma iteration_order_distinct: "iteration_order f \<Longrightarrow> distinct xs \<Longrightarrow> distinct (f xs)"
  by (metis iteration_order_def mset_eq_imp_distinct_iff)

lemma get_system_roots_keys:
  assumes "iteration_order set_iter" "get_system_roots set_iter G r = Inr systems"
  shows "distinct (map fst systems)"
    and "fst ` set systems =
           {c \<in> direct_children G PHENOTYPIC_ABN. \<not> (truthy_set r \<and> \<not> in_restrict r c)}"
proof -
  let ?cs = "set_iter (remdups (map fst (in_edges G PHENOTYPIC_ABN)))"
  from assms(2) have loop: "systems_loop G r ?cs = Inr systems"
    by (simp add: get_system_roots_def split: if_splits)
  have k: "map fst systems = filter (\<lambda>c. \<not> (truthy_set r \<and> \<not> in_restrict r c)) ?cs"
    by (rule systems_loop_keys [OF loop])
  have "distinct ?cs"
    by (rule iteration_order_distinct [OF assms(1)]) simp
  then show "distinct (map fst systems)" by (simp add: k)
  have "set ?cs = direct_children G PHENOTYPIC_ABN"
    by (simp add: iteration_order_set [OF assms(1)] children_list del: set_remdups)
  then have "set (map fst systems)
               = {c \<in> direct_children G PHENOTYPIC_ABN. \<not> (truthy_set r \<and> \<not> in_restrict r c)}"
    unfolding k by auto
  then show "fst ` set systems =
           {c \<in> direct_children G PHENOTYPIC_ABN. \<not> (truthy_set r \<and> \<not> in_restrict r c)}"
    by simp
qed

lemma get_system_roots_names:
  assumes "get_system_roots set_iter G r = Inr systems" "(c, nm) \<in> set systems"
  shows "\<exists>data. map_of (nodes G) c = Some data \<and> nm = (case data of None \<Rightarrow> [] | Some n \<Rightarrow> n)"
proof -
  from assms(1) have "systems_loop G r (set_iter (remdups (map fst (in_edges G PHENOTYPIC_ABN))))
                        = Inr systems"
    by (simp add: get_system_roots_def split: if_splits)
  from systems_loop_names [OF this assms(2)] show ?thesis .
qed

lemma filter_key_distinct:
  "distinct (map fst xs) \<Longrightarrow> (k, v) \<in> set xs \<Longrightarrow> filter (\<lambda>(a, b). a = k) xs = [(k, v)]"
proof (induction xs)
  case Nil
  then show ?case by simp
next
  case (Cons x xs)
  show ?case
  proof (cases "fst x = k")
    case True
    with Cons.prems have "x = (k, v)" "\<forall>y \<in> set xs. fst y \<noteq> k"
      by (auto simp: rev_image_eqI)
    then have "filter (\<lambda>(a, b). a = k) xs = []"
      by (auto simp: filter_empty_conv)
    with \<open>x = (k, v)\<close> show ?thesis by simp
  next
    case False
    with Cons show ?thesis by (auto split: prod.splits)
  qed
qed

section \<open>Classifying a system root\<close>

text \<open>
  C8, as stated, fails where one system root lies below another: both
  \<^verbatim>\<open>HP:0000707\<close> and \<^verbatim>\<open>HP:0012638\<close> are direct children of the root, the second
  is also a child of the first, and classifying \<^verbatim>\<open>HP:0000707\<close> gives two pairs.
\<close>

theorem classify_nested_system_root:
  "get_system_roots (\<lambda>xs. xs) G_nested None
     = Inr [(''HP:0000707'', ''Nervous system''),
            (''HP:0012638'', ''Abnormal nervous system physiology'')] \<and>
   map_term_to_systems G_nested
       [(''HP:0000707'', ''Nervous system''),
        (''HP:0012638'', ''Abnormal nervous system physiology'')] ''HP:0000707''
     = [(''HP:0012638'', ''Abnormal nervous system physiology''),
        (''HP:0000707'', ''Nervous system'')]"
  by (simp add: eval_defs G_nested_def)

text \<open>
  C8, amended: for every identifier \<open>R\<close> of the system-root set, the classification of
  \<open>R\<close> contains the pair of \<open>R\<close> and its name (the node's name attribute, or the
  empty string when it has none); every pair of the classification is an entry of the
  system-root set, and any other than that of \<open>R\<close> belongs to a system root joined to
  \<open>R\<close> by a path of child to parent edges, in one direction or the other; so the
  classification is exactly the one pair of \<open>R\<close> whenever no other system root is
  joined to \<open>R\<close> by such a path.
\<close>

theorem classify_system_root:
  assumes ord: "iteration_order set_iter"
    and roots: "get_system_roots set_iter G restrict_to = Inr systems"
    and R: "(R, nm) \<in> set systems"
  shows "(R, nm) \<in> set (map_term_to_systems G systems R) \<and>
         (\<exists>data. map_of (nodes G) R = Some data \<and> nm = (case data of None \<Rightarrow> [] | Some n \<Rightarrow> n)) \<and>
         (\<forall>(S, n) \<in> set (map_term_to_systems G systems R).
            (S, n) \<in> set systems \<and>
            (S = R \<or> (S, R) \<in> (edge_rel G)\<^sup>+ \<or> (R, S) \<in> (edge_rel G)\<^sup>+)) \<and>
         ((\<forall>S \<in> fst ` set systems.
              S \<noteq> R \<longrightarrow> (S, R) \<notin> (edge_rel G)\<^sup>+ \<and> (R, S) \<notin> (edge_rel G)\<^sup>+)
            \<longrightarrow> map_term_to_systems G systems R = [(R, nm)])"
proof (intro conjI impI)
  from get_system_roots_names [OF roots R]
  show name: "\<exists>data. map_of (nodes G) R = Some data \<and> nm = (case data of None \<Rightarrow> [] | Some n \<Rightarrow> n)" .
  then have node: "has_node G R"
    by (auto simp: has_node_def dest: map_of_SomeD intro: rev_image_eqI)
  with R show "(R, nm) \<in> set (map_term_to_systems G systems R)"
    by (simp add: set_map_term_to_systems)
  show "\<forall>(S, n) \<in> set (map_term_to_systems G systems R).
          (S, n) \<in> set systems \<and>
          (S = R \<or> (S, R) \<in> (edge_rel G)\<^sup>+ \<or> (R, S) \<in> (edge_rel G)\<^sup>+)"
    by (auto simp: set_map_term_to_systems)
  assume alone: "\<forall>S \<in> fst ` set systems.
                   S \<noteq> R \<longrightarrow> (S, R) \<notin> (edge_rel G)\<^sup>+ \<and> (R, S) \<notin> (edge_rel G)\<^sup>+"
  have "filter (\<lambda>(sid, nm). sid \<in> ancestors G R \<or> sid = R) systems
          = filter (\<lambda>(sid, nm). sid = R) systems"
  proof (rule filter_cong [OF refl])
    fix x assume "x \<in> set systems"
    with alone have "fst x \<noteq> R \<Longrightarrow> (fst x, R) \<notin> (edge_rel G)\<^sup>+" by auto
    then show "(case x of (sid, nm) \<Rightarrow> sid \<in> ancestors G R \<or> sid = R)
                 = (case x of (sid, nm) \<Rightarrow> sid = R)"
      by (cases x) (auto simp: ancestors_def nx_ancestors_iff)
  qed
  also have "\<dots> = [(R, nm)]"
    by (rule filter_key_distinct [OF get_system_roots_keys(1) [OF ord roots] R])
  finally show "map_term_to_systems G systems R = [(R, nm)]"
    using node by (simp add: map_term_to_systems_def)
qed

text \<open>
  The theorem at a graph with three system roots. \<^verbatim>\<open>HP:0000818\<close> is joined to neither
  of the other two, which its classification leaves out. \<^verbatim>\<open>HP:0000707\<close> is joined to
  \<^verbatim>\<open>HP:0012638\<close>: its classification holds both and leaves \<^verbatim>\<open>HP:0000818\<close> out.
\<close>

theorem classify_system_root_witness:
  "iteration_order (\<lambda>xs. xs) \<and>
   get_system_roots (\<lambda>xs. xs) G_three_roots None
     = Inr [(''HP:0000707'', ''Nervous system''),
            (''HP:0012638'', ''Abnormal nervous system physiology''),
            (''HP:0000818'', ''Endocrine system'')] \<and>
   (''HP:0000707'', ''HP:0000818'') \<notin> (edge_rel G_three_roots)\<^sup>+ \<and>
   (''HP:0000818'', ''HP:0000707'') \<notin> (edge_rel G_three_roots)\<^sup>+ \<and>
   (''HP:0012638'', ''HP:0000818'') \<notin> (edge_rel G_three_roots)\<^sup>+ \<and>
   (''HP:0000818'', ''HP:0012638'') \<notin> (edge_rel G_three_roots)\<^sup>+ \<and>
   map_term_to_systems G_three_roots
       [(''HP:0000707'', ''Nervous system''),
        (''HP:0012638'', ''Abnormal nervous system physiology''),
        (''HP:0000818'', ''Endocrine system'')] ''HP:0000818''
     = [(''HP:0000818'', ''Endocrine system'')] \<and>
   map_term_to_systems G_three_roots
       [(''HP:0000707'', ''Nervous system''),
        (''HP:0012638'', ''Abnormal nervous system physiology''),
        (''HP:0000818'', ''Endocrine system'')] ''HP:0000707''
     = [(''HP:0012638'', ''Abnormal nervous system physiology''),
        (''HP:0000707'', ''Nervous system'')] \<and>
   ((''HP:0012638'', ''HP:0000707'') \<in> (edge_rel G_three_roots)\<^sup>+ \<or>
    (''HP:0000707'', ''HP:0012638'') \<in> (edge_rel G_three_roots)\<^sup>+)"
proof -
  let ?systems = "[(''HP:0000707'', ''Nervous system''),
                   (''HP:0012638'', ''Abnormal nervous system physiology''),
                   (''HP:0000818'', ''Endocrine system'')]"
  have ord: "iteration_order (\<lambda>xs. xs)"
    by (simp add: iteration_order_def)
  have roots: "get_system_roots (\<lambda>xs. xs) G_three_roots None = Inr ?systems"
    by (simp add: eval_defs G_three_roots_def)
  have a: "nx_ancestors G_three_roots ''HP:0000818'' = {}"
    "nx_ancestors G_three_roots ''HP:0000707'' = {''HP:0012638''}"
    "nx_ancestors G_three_roots ''HP:0012638'' = {}"
    by (simp_all add: nx_ancestors_def in_edges_def G_three_roots_def)
  have apart:
    "(''HP:0000707'', ''HP:0000818'') \<notin> (edge_rel G_three_roots)\<^sup>+"
    "(''HP:0000818'', ''HP:0000707'') \<notin> (edge_rel G_three_roots)\<^sup>+"
    "(''HP:0012638'', ''HP:0000818'') \<notin> (edge_rel G_three_roots)\<^sup>+"
    "(''HP:0000818'', ''HP:0012638'') \<notin> (edge_rel G_three_roots)\<^sup>+"
    by (rule not_joined_by_path; simp add: a)+
  have endo: "(''HP:0000818'', ''Endocrine system'') \<in> set ?systems"
    and nerv: "(''HP:0000707'', ''Nervous system'') \<in> set ?systems"
    by simp_all
  have one: "map_term_to_systems G_three_roots ?systems ''HP:0000818''
               = [(''HP:0000818'', ''Endocrine system'')]"
    using classify_system_root [OF ord roots endo] apart by simp
  have two: "map_term_to_systems G_three_roots ?systems ''HP:0000707''
               = [(''HP:0012638'', ''Abnormal nervous system physiology''),
                  (''HP:0000707'', ''Nervous system'')]"
    by (simp add: eval_defs G_three_roots_def)
  have joined: "(''HP:0012638'', ''HP:0000707'') \<in> (edge_rel G_three_roots)\<^sup>+ \<or>
                (''HP:0000707'', ''HP:0012638'') \<in> (edge_rel G_three_roots)\<^sup>+"
    using classify_system_root [OF ord roots nerv] unfolding two by simp
  from ord roots apart one two joined show ?thesis by simp
qed

section \<open>Order of the classification\<close>

text \<open>
  C3, as stated, fails for two system roots of equal name: they stay in the order in which
  the dictionary of system roots holds them, here \<^verbatim>\<open>HP:0000002\<close> before
  \<^verbatim>\<open>HP:0000001\<close>.
\<close>

theorem equal_names_keep_dictionary_order:
  "get_system_roots (\<lambda>xs. xs) G_ties None
     = Inr [(''HP:0000002'', ''Growth''), (''HP:0000001'', ''Growth'')] \<and>
   map_term_to_systems G_ties [(''HP:0000002'', ''Growth''), (''HP:0000001'', ''Growth'')]
       ''HP:0000118''
     = [(''HP:0000002'', ''Growth''), (''HP:0000001'', ''Growth'')] \<and>
   \<not> ''HP:0000002'' \<le> ''HP:0000001''"
  by (simp add: eval_defs G_ties_def)

text \<open>
  C3, amended: the classification is sorted by the lower-cased name, ascending, and the
  sort is stable: the entries of equal lower-cased name keep the order in which the
  system-root dictionary iterates them (there is no tie-break by identifier).
\<close>

theorem map_term_to_systems_stable_sort:
  "sorted (map (\<lambda>x. lower (snd x)) (map_term_to_systems G systems node_id)) \<and>
   (\<forall>k. filter (\<lambda>x. lower (snd x) = k) (map_term_to_systems G systems node_id)
         = filter (\<lambda>x. lower (snd x) = k)
             (filter (\<lambda>(sid, nm). has_node G node_id \<and> (sid \<in> ancestors G node_id \<or> sid = node_id))
                systems))"
  by (simp add: map_term_to_systems_def sort_key_stable)

section \<open>The allow-list of get_system_roots\<close>

lemma wf_children_are_nodes:
  assumes "wf_graph G"
  shows "list_all (has_node G) (remdups (map fst (in_edges G n)))"
proof -
  have "has_node G u" if "(u, v, k) \<in> set (edges G)" for u v k
    using assms that by (auto simp: wf_graph_def list_all_iff)
  then show ?thesis
    by (auto simp: list_all_iff in_edges_def)
qed

lemma get_system_roots_succeeds:
  assumes "wf_graph G" "has_node G PHENOTYPIC_ABN" "iteration_order set_iter"
  shows "\<exists>systems. get_system_roots set_iter G restrict_to = Inr systems"
proof -
  let ?cs = "remdups (map fst (in_edges G PHENOTYPIC_ABN))"
  have "list_all (has_node G) (set_iter ?cs)"
    using wf_children_are_nodes [OF assms(1), of PHENOTYPIC_ABN]
    unfolding list_all_iff iteration_order_set [OF assms(3)] .
  from systems_loop_succeeds [OF this] show ?thesis
    using assms(2) by (simp add: get_system_roots_def)
qed

text \<open>
  C5, as stated, fails for the empty allow-list, which \<^verbatim>\<open>main\<close> builds from
  \<^verbatim>\<open>--restrict_ids ","\<close>: the guard \<^verbatim>\<open>if restrict_to and ...\<close> reads an empty
  set as no restriction, and every direct child of the root is kept.
\<close>

theorem empty_allow_list_keeps_all_children:
  "parse_restrict_ids (Some '','') = Some {} \<and>
   get_system_roots (\<lambda>xs. xs) G_seizure (Some {}) = Inr [(''HP:0000707'', ''Nervous system'')] \<and>
   direct_children G_seizure PHENOTYPIC_ABN \<inter> {} = {}"
  by (simp add: eval_defs G_seizure_def parse_restrict_ids_def strip_def)

text \<open>
  C5, amended: for every graph containing the root and every non-empty allow-list, the
  system-root set is exactly the set of direct children of the root intersected with the
  allow-list; for the empty allow-list, as when none is supplied, it is the set of all
  direct children of the root.
\<close>

theorem get_system_roots_allow_list:
  assumes "wf_graph G" "has_node G PHENOTYPIC_ABN" "iteration_order set_iter"
  shows "\<exists>systems. get_system_roots set_iter G restrict_to = Inr systems \<and>
           fst ` set systems =
             (case restrict_to of
                None \<Rightarrow> direct_children G PHENOTYPIC_ABN
              | Some allow \<Rightarrow>
                  if allow = {} then direct_children G PHENOTYPIC_ABN
                  else direct_children G PHENOTYPIC_ABN \<inter> allow)"
proof -
  from get_system_roots_succeeds [OF assms]
  obtain systems where s: "get_system_roots set_iter G restrict_to = Inr systems" by blast
  have "fst ` set systems =
          (case restrict_to of
             None \<Rightarrow> direct_children G PHENOTYPIC_ABN
           | Some allow \<Rightarrow>
               if allow = {} then direct_children G PHENOTYPIC_ABN
               else direct_children G PHENOTYPIC_ABN \<inter> allow)"
    unfolding get_system_roots_keys(2) [OF assms(3) s]
    by (auto simp: truthy_set_def in_restrict_def split: option.splits)
  with s show ?thesis by blast
qed

theorem get_system_roots_allow_list_witness:
  "wf_graph G_nested \<and> has_node G_nested PHENOTYPIC_ABN \<and> iteration_order rev \<and>
   (\<exists>systems. get_system_roots rev G_nested (Some {''HP:0000707'', ''HP:0001250''}) = Inr systems \<and>
      fst ` set systems
        = direct_children G_nested PHENOTYPIC_ABN \<inter> {''HP:0000707'', ''HP:0001250''})"
proof -
  have wf: "wf_graph G_nested"
    by (simp add: wf_graph_def has_node_def G_nested_def)
  have root: "has_node G_nested PHENOTYPIC_ABN"
    by (simp add: has_node_def G_nested_def PHENOTYPIC_ABN_def)
  have ord: "iteration_order rev"
    by (simp add: iteration_order_def)
  show ?thesis
    using get_system_roots_allow_list [OF wf root ord, of "Some {''HP:0000707'', ''HP:0001250''}"]
      wf root ord
    by simp
qed

section \<open>What resolve_input_to_id returns\<close>

lemma fold_index_value:
  "fold index_node ns m k = Some i \<Longrightarrow> m k = Some i \<or> i \<in> fst ` set ns"
proof (induction ns arbitrary: m)
  case Nil
  then show ?case by simp
next
  case (Cons n ns)
  from Cons.prems have "fold index_node ns (index_node n m) k = Some i" by simp
  from Cons.IH [OF this] show ?case
    by (cases n; cases "snd n") (auto split: if_splits)
qed

lemma build_name_index_is_node: "build_name_index G k = Some i \<Longrightarrow> has_node G i"
  using fold_index_value [of "nodes G" Map.empty k i]
  by (simp add: build_name_index_def has_node_def)

lemma resolve_match:
  assumes "re_match_hpo_id (strip term)"
  shows "resolve_input_to_id term name_to_id = Inr (Some (''HP:'' @ drop 3 (strip term)))"
proof -
  from assms obtain h p rest where t: "strip term = h # p # CHR '':'' # rest"
    and h: "h = CHR ''H'' \<or> h = CHR ''h''" and p: "p = CHR ''P'' \<or> p = CHR ''p''"
    and len: "length (take 7 rest) = 7" and dig: "list_all is_digit (take 7 rest)"
    and tl: "drop 7 rest = [] \<or> drop 7 rest = [CHR 0x0A]"
    by (auto simp: re_match_hpo_id_def split: list.splits)
  have "set rest = set (take 7 rest) \<union> set (drop 7 rest)"
    by (metis append_take_drop_id set_append)
  moreover have "CHR '':'' \<notin> set (drop 7 rest)"
    using tl by auto
  ultimately have "CHR '':'' \<notin> set rest"
    using is_digit_not_colon [OF dig] by simp
  then have "split_on CHR '':'' rest = [rest]" by (rule split_on_no_sep)
  then have s: "split_on CHR '':'' (h # p # CHR '':'' # rest) = [[h, p], rest]"
    using h p by auto
  have "7 \<le> length rest" using len by simp
  then have z: "zfill 7 rest = rest" by (simp add: zfill_def)
  have ne: "strip term \<noteq> []" by (simp add: t)
  have "resolve_input_to_id term name_to_id = Inr (Some (''HP:'' @ zfill 7 rest))"
    using assms ne by (simp add: resolve_input_to_id_def Let_def s [folded t])
  then show ?thesis by (simp add: z t)
qed

lemma resolve_no_match:
  assumes "\<not> re_match_hpo_id (strip term)"
  shows "resolve_input_to_id term name_to_id
           = Inr (if strip term = [] then None else name_to_id (lower (strip term)))"
  using assms by (simp add: resolve_input_to_id_def Let_def)

text \<open>
  C4, as stated, fails for an identifier-shaped input: \<^verbatim>\<open>resolve_input_to_id\<close> has no
  access to the graph and returns the canonical identifier whether or not it is a node.
\<close>

theorem resolve_absent_identifier:
  "resolve_input_to_id ''HP:9999999'' (build_name_index G_seizure) = Inr (Some ''HP:9999999'') \<and>
   \<not> has_node G_seizure ''HP:9999999''"
  by (simp add: resolve_input_to_id_def strip_def is_space_def re_match_hpo_id_def is_digit_def
      zfill_def has_node_def G_seizure_def)

text \<open>
  C4, amended: for every raw input string and the name index built from the graph,
  resolution raises no error and its result is either unresolved, or, when the stripped
  input matches the identifier pattern, the canonical identifier (in the graph or not),
  or otherwise an identifier that exists as a node in the graph.
\<close>

theorem resolve_input_to_id_result:
  "\<exists>r. resolve_input_to_id term (build_name_index G) = Inr r \<and>
       (r = None \<or>
        (\<exists>i. r = Some i \<and>
             (if re_match_hpo_id (strip term) then i = ''HP:'' @ drop 3 (strip term)
              else has_node G i)))"
proof (cases "re_match_hpo_id (strip term)")
  case True
  then show ?thesis by (simp add: resolve_match)
next
  case False
  show ?thesis
    using False build_name_index_is_node [of G "lower (strip term)"]
    by (cases "build_name_index G (lower (strip term))") (auto simp: resolve_no_match)
qed

section \<open>Names shared by several nodes\<close>

lemma fold_index_unchanged:
  "(\<And>n nm. (n, Some nm) \<in> set ns \<Longrightarrow> lower nm \<noteq> k) \<Longrightarrow> fold index_node ns m k = m k"
proof (induction ns arbitrary: m)
  case Nil
  then show ?case by simp
next
  case (Cons x ns)
  obtain n d where x: "x = (n, d)" by (cases x)
  have "fold index_node ns (index_node x m) k = index_node x m k"
    by (rule Cons.IH) (use Cons.prems in auto)
  also have "index_node x m k = m k"
    using Cons.prems [of n] by (cases d) (auto simp: x)
  finally show ?case by simp
qed

lemma build_name_index_last:
  assumes "nodes G = before @ (node, Some name) # after" "name \<noteq> []"
    and "\<And>n nm. (n, Some nm) \<in> set after \<Longrightarrow> lower nm \<noteq> lower name"
  shows "build_name_index G (lower name) = Some node"
proof -
  have "build_name_index G (lower name)
          = fold index_node after (index_node (node, Some name) (fold index_node before Map.empty))
              (lower name)"
    by (simp add: build_name_index_def assms(1))
  also have "\<dots> = index_node (node, Some name) (fold index_node before Map.empty) (lower name)"
    by (rule fold_index_unchanged) (rule assms(3))
  also have "\<dots> = Some node"
    using assms(2) by simp
  finally show ?thesis .
qed

text \<open>
  C10: when several nodes carry names that are equal once lower-cased, the name index maps
  the lower-cased name to the node that comes last in the iteration order of the graph's
  nodes (a node with a non-empty name, after which no node has the same lower-cased
  name); and the lookup of a name that is not in the index gives unresolved, not an error.
\<close>

theorem build_name_index_last_wins:
  "(nodes G = before @ (node, Some name) # after \<and> name \<noteq> [] \<and>
      (\<forall>n nm. (n, Some nm) \<in> set after \<longrightarrow> lower nm \<noteq> lower name)
      \<longrightarrow> build_name_index G (lower name) = Some node) \<and>
   (\<not> re_match_hpo_id (strip term) \<and> name_to_id (lower (strip term)) = None
      \<longrightarrow> resolve_input_to_id term name_to_id = Inr None)"
  using build_name_index_last [of G before node name after]
  by (auto simp: resolve_no_match)

theorem build_name_index_last_wins_witness:
  "nodes G_same_name
     = [(''HP:0001250'', Some ''Seizure'')] @ (''HP:0020219'', Some ''SEIZURE'')
         # [(''HP:0000118'', Some ''Phenotypic abnormality'')] \<and>
   lower ''Seizure'' = lower ''SEIZURE'' \<and>
   build_name_index G_same_name ''seizure'' = Some ''HP:0020219'' \<and>
   \<not> re_match_hpo_id (strip ''Headache'') \<and>
   build_name_index G_same_name (lower (strip ''Headache'')) = None \<and>
   resolve_input_to_id ''Headache'' (build_name_index G_same_name) = Inr None"
proof -
  have n: "nodes G_same_name
     = [(''HP:0001250'', Some ''Seizure'')] @ (''HP:0020219'', Some ''SEIZURE'')
         # [(''HP:0000118'', Some ''Phenotypic abnormality'')]"
    by (simp add: G_same_name_def)
  have l: "lower ''Seizure'' = lower ''SEIZURE''" "lower ''SEIZURE'' = ''seizure''"
    "lower ''Phenotypic abnormality'' \<noteq> lower ''SEIZURE''"
    by (simp_all add: lower_def lower_char_def)
  have m: "\<not> re_match_hpo_id (strip ''Headache'')"
    by (simp add: strip_def is_space_def re_match_hpo_id_def)
  have a: "build_name_index G_same_name (lower (strip ''Headache'')) = None"
    by (simp add: build_name_index_def G_same_name_def strip_def is_space_def lower_def
        lower_char_def)
  show ?thesis
    using build_name_index_last_wins
      [of G_same_name "[(''HP:0001250'', Some ''Seizure'')]" "''HP:0020219''" "''SEIZURE''"
          "[(''HP:0000118'', Some ''Phenotypic abnormality'')]" "''Headache''"
          "build_name_index G_same_name"]
      n l m a
    by simp
qed

section \<open>The rows of the output\<close>

lemmas string_defs = strip_def is_space_def re_match_hpo_id_def is_digit_def zfill_def
  resolve_input_to_id_def

lemmas main_defs = main_def main_results_def parse_restrict_ids_def process_input_def
  resolved_name_of_def or_empty_def write_output_def fieldnames_def build_name_index_def

lemma process_input_row:
  assumes "process_input G name_to_id system_roots raw = Inr r"
  shows "\<exists>rid rname systems.
           resolve_input_to_id raw name_to_id = Inr rid \<and>
           resolved_name_of G rid = Inr rname \<and>
           systems = (case rid of
                        None \<Rightarrow> []
                      | Some i \<Rightarrow> if i = [] then [] else map_term_to_systems G system_roots i) \<and>
           r = [(''input'', raw),
                (''resolved_hpo_id'', case rid of None \<Rightarrow> [] | Some i \<Rightarrow> i),
                (''resolved_hpo_name'', case rname of None \<Rightarrow> [] | Some n \<Rightarrow> n),
                (''system_level_ids'', join ''|'' (map fst systems)),
                (''system_level_names'', join ''|'' (map snd systems))]"
proof -
  from assms obtain rid where rid: "resolve_input_to_id raw name_to_id = Inr rid"
    by (cases "resolve_input_to_id raw name_to_id") (simp_all add: process_input_def)
  from assms rid obtain rname where rname: "resolved_name_of G rid = Inr rname"
    by (cases "resolved_name_of G rid") (simp_all add: process_input_def)
  define systems where
    "systems = (case rid of
                  None \<Rightarrow> []
                | Some i \<Rightarrow> if i = [] then [] else map_term_to_systems G system_roots i)"
  have s: "(case rid of
              None \<Rightarrow> []
            | Some rid \<Rightarrow> if rid \<noteq> [] then map_term_to_systems G system_roots rid else [])
             = systems"
    by (simp add: systems_def split: option.splits)
  have e: "map fst systems = [] \<longleftrightarrow> systems = []" "map snd systems = [] \<longleftrightarrow> systems = []"
    by simp_all
  from assms have "r = [(''input'', raw),
                (''resolved_hpo_id'', case rid of None \<Rightarrow> [] | Some i \<Rightarrow> i),
                (''resolved_hpo_name'', case rname of None \<Rightarrow> [] | Some n \<Rightarrow> n),
                (''system_level_ids'', join ''|'' (map fst systems)),
                (''system_level_names'', join ''|'' (map snd systems))]"
    by (cases "systems = []") (auto simp: process_input_def rid rname s or_empty_def Let_def)
  with rid rname systems_def show ?thesis by blast
qed

lemma process_inputs_rows:
  "process_inputs G name_to_id system_roots inputs = Inr rows \<Longrightarrow>
     list_all2 (\<lambda>raw r. process_input G name_to_id system_roots raw = Inr r) inputs rows"
  by (induction inputs arbitrary: rows) (auto split: sum.splits)

lemma write_output_rows:
  assumes "\<And>r. r \<in> set rows \<Longrightarrow> distinct (map fst r) \<and> map fst r = fieldnames"
  shows "write_output rows = Inr (fieldnames # map (map snd) rows)"
proof -
  have cells: "map (\<lambda>f. case map_of r f of None \<Rightarrow> [] | Some v \<Rightarrow> v) fieldnames = map snd r"
    if "r \<in> set rows" for r
  proof -
    have d: "distinct (map fst r)"
      using assms [OF that] by (rule conjunct1)
    have "map fst r = fieldnames"
      using assms [OF that] by (rule conjunct2)
    then have f: "fieldnames = map fst r" by (rule sym)
    have "map (\<lambda>f. case map_of r f of None \<Rightarrow> [] | Some v \<Rightarrow> v) (map fst r) = map snd r"
      using d by (auto simp: map_of_eq_Some_iff [OF d] intro!: nth_equalityI)
    then show ?thesis by (simp add: f)
  qed
  have "k \<in> set fieldnames" if "r \<in> set rows" "k \<in> set (map fst r)" for r k
    using assms [OF that(1)] that(2) by metis
  then have "\<not> list_ex (\<lambda>r. list_ex (\<lambda>k. k \<notin> set fieldnames) (map fst r)) rows"
    unfolding list_ex_iff by blast
  then show ?thesis
    using cells by (simp add: write_output_def)
qed

lemma list_all2_right: "list_all2 P xs ys \<Longrightarrow> y \<in> set ys \<Longrightarrow> \<exists>x. P x y"
  by (induction rule: list_all2_induct) auto

text \<open>
  C2, as stated, fails on the names of the fields: the records and the header written name
  the second and third field \<^verbatim>\<open>resolved_hpo_id\<close> and \<^verbatim>\<open>resolved_hpo_name\<close>, not
  \<^verbatim>\<open>resolved_id\<close> and \<^verbatim>\<open>resolved_name\<close>.
\<close>

theorem output_fields_named_hpo:
  "main (\<lambda>xs. xs) G_seizure None [''Nervous system'', ''no such term'']
     = Inr [[''input'', ''resolved_hpo_id'', ''resolved_hpo_name'',
             ''system_level_ids'', ''system_level_names''],
            [''Nervous system'', ''HP:0000707'', ''Nervous system'',
             ''HP:0000707'', ''Nervous system''],
            [''no such term'', '''', '''', '''', '''']] \<and>
   [''input'', ''resolved_hpo_id'', ''resolved_hpo_name'', ''system_level_ids'',
    ''system_level_names'']
     \<noteq> [''input'', ''resolved_id'', ''resolved_name'', ''system_level_ids'',
         ''system_level_names'']"
  by (simp add: main_defs string_defs eval_defs G_seizure_def)

text \<open>
  C2, amended: every output record of a run that completes has exactly the fields
  \<^verbatim>\<open>input\<close>, \<^verbatim>\<open>resolved_hpo_id\<close>, \<^verbatim>\<open>resolved_hpo_name\<close>,
  \<^verbatim>\<open>system_level_ids\<close>, \<^verbatim>\<open>system_level_names\<close>, in that order, which is also the
  header written; the last two are the identifiers and the names of the classification
  joined with \<^verbatim>\<open>|\<close>, and a field for which there is no value holds the empty string.
\<close>

theorem main_output_records:
  assumes "main set_iter G restrict_ids inputs = Inr table"
  shows "\<exists>system_roots rows.
           get_system_roots set_iter G (parse_restrict_ids restrict_ids) = Inr system_roots \<and>
           main_results set_iter G restrict_ids inputs = Inr rows \<and>
           table = [''input'', ''resolved_hpo_id'', ''resolved_hpo_name'', ''system_level_ids'',
                    ''system_level_names''] # map (map snd) rows \<and>
           list_all2
             (\<lambda>raw r. \<exists>rid rname systems.
                resolve_input_to_id raw (build_name_index G) = Inr rid \<and>
                resolved_name_of G rid = Inr rname \<and>
                systems = (case rid of
                             None \<Rightarrow> []
                           | Some i \<Rightarrow> if i = [] then [] else map_term_to_systems G system_roots i) \<and>
                r = [(''input'', raw),
                     (''resolved_hpo_id'', case rid of None \<Rightarrow> [] | Some i \<Rightarrow> i),
                     (''resolved_hpo_name'', case rname of None \<Rightarrow> [] | Some n \<Rightarrow> n),
                     (''system_level_ids'', join ''|'' (map fst systems)),
                     (''system_level_names'', join ''|'' (map snd systems))])
             inputs rows"
proof -
  from assms obtain rows where rows: "main_results set_iter G restrict_ids inputs = Inr rows"
    and out: "write_output rows = Inr table"
    by (cases "main_results set_iter G restrict_ids inputs") (simp_all add: main_def)
  from rows obtain system_roots
    where roots: "get_system_roots set_iter G (parse_restrict_ids restrict_ids) = Inr system_roots"
      and loop: "process_inputs G (build_name_index G) system_roots inputs = Inr rows"
    by (cases "get_system_roots set_iter G (parse_restrict_ids restrict_ids)")
       (simp_all add: main_results_def)
  let ?row = "\<lambda>raw r. \<exists>rid rname systems.
                resolve_input_to_id raw (build_name_index G) = Inr rid \<and>
                resolved_name_of G rid = Inr rname \<and>
                systems = (case rid of
                             None \<Rightarrow> []
                           | Some i \<Rightarrow> if i = [] then [] else map_term_to_systems G system_roots i) \<and>
                r = [(''input'', raw),
                     (''resolved_hpo_id'', case rid of None \<Rightarrow> [] | Some i \<Rightarrow> i),
                     (''resolved_hpo_name'', case rname of None \<Rightarrow> [] | Some n \<Rightarrow> n),
                     (''system_level_ids'', join ''|'' (map fst systems)),
                     (''system_level_names'', join ''|'' (map snd systems))]"
  have all: "list_all2 ?row inputs rows"
    by (rule list_all2_mono [OF process_inputs_rows [OF loop]]) (rule process_input_row)
  have "distinct (map fst r) \<and> map fst r = fieldnames" if "r \<in> set rows" for r
  proof -
    from list_all2_right [OF all that] obtain raw where "?row raw r" ..
    then show ?thesis by (auto simp: fieldnames_def)
  qed
  then have "write_output rows = Inr (fieldnames # map (map snd) rows)"
    by (rule write_output_rows)
  with out have "table = [''input'', ''resolved_hpo_id'', ''resolved_hpo_name'',
                          ''system_level_ids'', ''system_level_names''] # map (map snd) rows"
    by (simp add: fieldnames_def)
  with roots rows all show ?thesis by blast
qed

theorem main_output_records_witness:
  "main (\<lambda>xs. xs) G_seizure None [''Nervous system'', ''no such term'']
     = Inr [[''input'', ''resolved_hpo_id'', ''resolved_hpo_name'',
             ''system_level_ids'', ''system_level_names''],
            [''Nervous system'', ''HP:0000707'', ''Nervous system'',
             ''HP:0000707'', ''Nervous system''],
            [''no such term'', '''', '''', '''', '''']] \<and>
   (\<exists>rows. main_results (\<lambda>xs. xs) G_seizure None [''Nervous system'', ''no such term'']
              = Inr rows \<and>
           map (map snd) rows
             = [[''Nervous system'', ''HP:0000707'', ''Nervous system'',
                 ''HP:0000707'', ''Nervous system''],
                [''no such term'', '''', '''', '''', '''']])"
proof -
  have m: "main (\<lambda>xs. xs) G_seizure None [''Nervous system'', ''no such term'']
     = Inr [[''input'', ''resolved_hpo_id'', ''resolved_hpo_name'',
             ''system_level_ids'', ''system_level_names''],
            [''Nervous system'', ''HP:0000707'', ''Nervous system'',
             ''HP:0000707'', ''Nervous system''],
            [''no such term'', '''', '''', '''', '''']]"
    by (simp add: main_defs string_defs eval_defs G_seizure_def)
  from main_output_records [OF m] have
    "\<exists>rows. main_results (\<lambda>xs. xs) G_seizure None [''Nervous system'', ''no such term'']
              = Inr rows \<and>
           map (map snd) rows
             = [[''Nervous system'', ''HP:0000707'', ''Nervous system'',
                 ''HP:0000707'', ''Nervous system''],
                [''no such term'', '''', '''', '''', '''']]"
    by auto
  with m show ?thesis by simp
qed

section \<open>Errors of the run\<close>

lemma resolve_returns: "\<exists>rid. resolve_input_to_id term name_to_id = Inr rid"
  by (cases "re_match_hpo_id (strip term)") (simp_all add: resolve_match resolve_no_match)

lemma resolved_name_of_error: "resolved_name_of G rid = Inl e \<Longrightarrow> e = KeyError"
  by (auto simp: resolved_name_of_def split: option.splits if_splits)

lemma process_input_error:
  assumes "process_input G name_to_id system_roots raw = Inl e"
  shows "e = KeyError"
proof -
  obtain rid where rid: "resolve_input_to_id raw name_to_id = Inr rid"
    using resolve_returns by blast
  from assms have "resolved_name_of G rid = Inl e"
    by (cases "resolved_name_of G rid") (simp_all add: process_input_def rid Let_def)
  then show ?thesis by (rule resolved_name_of_error)
qed

lemma process_inputs_error:
  "process_inputs G name_to_id system_roots inputs = Inl e \<Longrightarrow> e = KeyError"
  by (induction inputs) (auto split: sum.splits dest: process_input_error)

lemma systems_loop_error: "systems_loop G r cs = Inl e \<Longrightarrow> e = KeyError"
  by (induction cs) (auto split: if_splits option.splits sum.splits)

lemma main_results_error:
  assumes "main_results set_iter G restrict_ids inputs = Inl e"
  shows "if has_node G PHENOTYPIC_ABN then e = KeyError else e = ValueError"
proof (cases "has_node G PHENOTYPIC_ABN")
  case False
  with assms show ?thesis
    by (simp add: main_results_def get_system_roots_def)
next
  case True
  show ?thesis
  proof (cases "get_system_roots set_iter G (parse_restrict_ids restrict_ids)")
    case (Inl e')
    with assms have "e' = e" by (simp add: main_results_def)
    with Inl True show ?thesis
      by (auto simp: get_system_roots_def dest: systems_loop_error)
  next
    case (Inr system_roots)
    with assms True show ?thesis
      by (auto simp: main_results_def dest: process_inputs_error)
  qed
qed

lemma main_results_length:
  assumes "main_results set_iter G restrict_ids inputs = Inr rows"
  shows "length rows = length inputs"
proof -
  from assms obtain system_roots
    where "process_inputs G (build_name_index G) system_roots inputs = Inr rows"
    by (cases "get_system_roots set_iter G (parse_restrict_ids restrict_ids)")
       (simp_all add: main_results_def)
  from process_inputs_rows [OF this] show ?thesis
    by (simp add: list_all2_lengthD)
qed

lemma process_inputs_named:
  assumes "\<And>n. map_of (nodes G) n \<noteq> Some None"
  shows "\<exists>rows. process_inputs G name_to_id system_roots inputs = Inr rows"
proof (induction inputs)
  case Nil
  then show ?case by simp
next
  case (Cons raw inputs)
  obtain rid where rid: "resolve_input_to_id raw name_to_id = Inr rid"
    using resolve_returns by blast
  have "\<exists>rname. resolved_name_of G rid = Inr rname"
  proof (cases "resolved_name_of G rid")
    case (Inl e)
    then obtain i where "map_of (nodes G) i = None \<and> has_node G i \<or> map_of (nodes G) i = Some None"
      by (auto simp: resolved_name_of_def split: option.splits if_splits)
    with assms [of i] show ?thesis
      by (auto simp: has_node_def map_of_eq_None_iff)
  qed simp
  then obtain r where "process_input G name_to_id system_roots raw = Inr r"
    by (auto simp: process_input_def rid Let_def)
  with Cons.IH show ?case by auto
qed

lemma main_results_named:
  assumes "wf_graph G" "has_node G PHENOTYPIC_ABN" "iteration_order set_iter"
    and "\<And>n. map_of (nodes G) n \<noteq> Some None"
  shows "\<exists>rows. main_results set_iter G restrict_ids inputs = Inr rows \<and>
                length rows = length inputs"
proof -
  from get_system_roots_succeeds [OF assms(1-3)] obtain system_roots
    where "get_system_roots set_iter G (parse_restrict_ids restrict_ids) = Inr system_roots"
    by blast
  moreover from process_inputs_named [OF assms(4)] obtain rows
    where "process_inputs G (build_name_index G) system_roots inputs = Inr rows"
    by blast
  ultimately have "main_results set_iter G restrict_ids inputs = Inr rows"
    by (simp add: main_results_def)
  then show ?thesis
    using main_results_length by blast
qed

text \<open>
  C6: for an input whose resolved identifier is in the graph, the resolved-name field
  should hold the node's name, or the empty string when the node has no name attribute,
  with no error. The code subscripts the attribute dictionary with \<^verbatim>\<open>["name"]\<close>: for
  the node \<^verbatim>\<open>HP:0009999\<close>, present without attributes, \<^verbatim>\<open>main\<close> raises
  \<^verbatim>\<open>KeyError\<close>, where \<^verbatim>\<open>get_system_roots\<close> and \<^verbatim>\<open>build_name_index\<close> read the
  name with \<^verbatim>\<open>.get\<close>.
\<close>

theorem unnamed_node_raises_KeyError:
  "resolve_input_to_id ''HP:0009999'' (build_name_index G_unnamed) = Inr (Some ''HP:0009999'') \<and>
   has_node G_unnamed ''HP:0009999'' \<and>
   map_of (nodes G_unnamed) ''HP:0009999'' = Some None \<and>
   main_results (\<lambda>xs. xs) G_unnamed None [''HP:0009999''] = Inl KeyError"
  by (simp add: main_defs string_defs eval_defs G_unnamed_def)

text \<open>
  C7: the run should fail only when the root \<^verbatim>\<open>HP:0000118\<close> is absent, and with the
  root present every input should give one row. The root is present in the graph below
  and the system roots are computed, yet the second input resolves to a node without a
  name, the \<^verbatim>\<open>KeyError\<close> ends the run, and no row is written.
\<close>

theorem run_aborts_with_root_present:
  "has_node G_unnamed PHENOTYPIC_ABN \<and>
   get_system_roots (\<lambda>xs. xs) G_unnamed None = Inr [(''HP:0000707'', ''Nervous system'')] \<and>
   main (\<lambda>xs. xs) G_unnamed None [''Seizure'', ''HP:0009999'', ''Nervous system'']
     = Inl KeyError"
  by (simp add: main_defs string_defs eval_defs G_unnamed_def)

end
